theory Spec2Isabelle
  imports Complex_Main "HOL-Library.Product_Lexorder"
begin

section \<open>Data model\<close>

text \<open>
  The documents of \<^verbatim>\<open>server/models/Product.js\<close> and \<^verbatim>\<open>server/models/User.js\<close>.
  Object ids are compared through \<^verbatim>\<open>toString()\<close> everywhere in the service, so an id is a
  string; a property that a JavaScript object may lack is an \<open>option\<close> (\<open>None\<close> is
  \<^verbatim>\<open>undefined\<close>). JavaScript numbers are IEEE doubles; the weights and quotients of the
  scorer are modelled on the rationals, and timestamps are natural numbers.
\<close>

record product =
  p_id :: "string option"
  p_name :: string
  p_category :: string
  p_price :: rat
  p_tags :: "string list option"
  p_rating :: rat
  p_reviewCount :: int

record price_range =
  min_price :: "rat option"
  max_price :: "rat option"

record preferences =
  categories :: "string list option"
  priceRange :: "price_range option"
  tags :: "string list option"

text \<open>An entry of \<^verbatim>\<open>viewHistory\<close> or \<^verbatim>\<open>purchases\<close>; \<open>timestamp\<close> is \<^verbatim>\<open>viewedAt\<close>,
  respectively \<^verbatim>\<open>purchasedAt\<close>.\<close>

record history_item =
  productId :: "string option"
  timestamp :: nat

record user =
  u_id :: string
  u_name :: string
  u_email :: string
  u_password :: string
  u_preferences :: "preferences option"
  u_viewHistory :: "history_item list"
  u_purchases :: "history_item list"
  u_createdAt :: nat

datatype error = TypeError | StoreError

section \<open>Similarity scorer\<close>

text \<open>\<^verbatim>\<open>x >= undefined\<close> and \<^verbatim>\<open>x <= undefined\<close> are false in JavaScript.\<close>

definition num_ge :: "rat \<Rightarrow> rat option \<Rightarrow> bool" where
  "num_ge x b = (case b of None \<Rightarrow> False | Some m \<Rightarrow> m \<le> x)"

definition num_le :: "rat \<Rightarrow> rat option \<Rightarrow> bool" where
  "num_le x b = (case b of None \<Rightarrow> False | Some m \<Rightarrow> x \<le> m)"

text \<open>
  Each of the three checks of \<^verbatim>\<open>calculateSimilarityScore\<close> yields the pair of what it adds
  to \<^verbatim>\<open>score\<close> and what it adds to \<^verbatim>\<open>maxScore\<close>.
\<close>

definition categoryComponent :: "preferences \<Rightarrow> product \<Rightarrow> rat \<times> rat" where
  "categoryComponent userPreferences product =
     (case categories userPreferences of
        None \<Rightarrow> (0, 0)
      | Some cs \<Rightarrow>
          if length cs > 0
          then (if p_category product \<in> set cs then 4 / 10 else 0, 4 / 10)
          else (0, 0))"

definition priceComponent :: "preferences \<Rightarrow> product \<Rightarrow> rat \<times> rat" where
  "priceComponent userPreferences product =
     (case priceRange userPreferences of
        None \<Rightarrow> (0, 0)
      | Some r \<Rightarrow>
          (if num_ge (p_price product) (min_price r) \<and> num_le (p_price product) (max_price r)
           then 3 / 10 else 0, 3 / 10))"

definition matchingTags :: "string list \<Rightarrow> string list \<Rightarrow> string list" where
  "matchingTags productTags prefTags = filter (\<lambda>tag. tag \<in> set prefTags) productTags"

definition tagComponent :: "preferences \<Rightarrow> product \<Rightarrow> rat \<times> rat" where
  "tagComponent userPreferences product =
     (case tags userPreferences of
        None \<Rightarrow> (0, 0)
      | Some ts \<Rightarrow>
          if length ts > 0
          then (case p_tags product of
                  None \<Rightarrow> (0, 0)
                | Some pts \<Rightarrow>
                    (of_nat (length (matchingTags pts ts)) / of_nat (max (length ts) 1)
                       * (3 / 10), 3 / 10))
          else (0, 0))"

text \<open>Reading a property of an absent preferences object raises a \<^verbatim>\<open>TypeError\<close>.\<close>

definition calculateSimilarityScore :: "preferences option \<Rightarrow> product \<Rightarrow> error + rat" where
  "calculateSimilarityScore userPreferences product =
     (case userPreferences of
        None \<Rightarrow> Inl TypeError
      | Some up \<Rightarrow>
          (let score = fst (categoryComponent up product) + fst (priceComponent up product)
                         + fst (tagComponent up product);
               maxScore = snd (categoryComponent up product) + snd (priceComponent up product)
                         + snd (tagComponent up product)
           in Inr (if maxScore > 0 then score / maxScore else 0)))"

section \<open>The document store\<close>

text \<open>
  The service reaches MongoDB through Mongoose, which is not part of the repository. The
  store holds the two collections in cursor order. Two things are left to the store as
  parameters: \<open>limitPolicy st n k\<close> is the number of documents that a query with
  \<^verbatim>\<open>.limit(n)\<close> returns out of \<open>k\<close> matching ones, and \<open>failing st q\<close> says that
  queries of kind \<open>q\<close> are rejected with a store error.
\<close>

datatype query = UserFindById | UserFind | ProductFind | UserFindByIdAndUpdate

record store =
  users :: "user list"
  products :: "product list"
  limitPolicy :: "int \<Rightarrow> nat \<Rightarrow> nat"
  failing :: "query \<Rightarrow> bool"

definition limitQ :: "store \<Rightarrow> int \<Rightarrow> 'a list \<Rightarrow> 'a list" where
  "limitQ st n xs = take (limitPolicy st n (length xs)) xs"

text \<open>Modelled from the spec: the store is "queried by exact match, set-membership
  (\<^verbatim>\<open>$in\<close>/\<^verbatim>\<open>$nin\<close>), and sort-with-limit". \<^verbatim>\<open>$in\<close> does not match a document that
  lacks the field, \<^verbatim>\<open>$nin\<close> does.\<close>

definition idIn :: "string option \<Rightarrow> string list \<Rightarrow> bool" where
  "idIn i ids = (case i of None \<Rightarrow> False | Some s \<Rightarrow> s \<in> set ids)"

definition User_findById :: "store \<Rightarrow> string \<Rightarrow> error + user option" where
  "User_findById st userId =
     (if failing st UserFindById then Inl StoreError
      else Inr (find (\<lambda>u. u_id u = userId) (users st)))"

text \<open>\<^verbatim>\<open>User.find({_id: {$ne: userId}, $or: [{'viewHistory.productId': {$in: ids}},
  {'purchases.productId': {$in: ids}}]}).limit(10)\<close>\<close>

definition User_findSimilar :: "store \<Rightarrow> string \<Rightarrow> string list \<Rightarrow> error + user list" where
  "User_findSimilar st userId ids =
     (if failing st UserFind then Inl StoreError
      else Inr (limitQ st 10
             (filter (\<lambda>u. u_id u \<noteq> userId \<and>
                           (list_ex (\<lambda>item. idIn (productId item) ids) (u_viewHistory u) \<or>
                            list_ex (\<lambda>item. idIn (productId item) ids) (u_purchases u)))
                (users st))))"

text \<open>\<^verbatim>\<open>Product.find({_id: {$in: ids}}).limit(limit)\<close>\<close>

definition Product_findIn :: "store \<Rightarrow> string list \<Rightarrow> int \<Rightarrow> error + product list" where
  "Product_findIn st ids limit =
     (if failing st ProductFind then Inl StoreError
      else Inr (limitQ st limit (filter (\<lambda>p. idIn (p_id p) ids) (products st))))"

text \<open>\<^verbatim>\<open>Product.find({_id: {$nin: ids}})\<close>\<close>

definition Product_findNotIn :: "store \<Rightarrow> string list \<Rightarrow> error + product list" where
  "Product_findNotIn st ids =
     (if failing st ProductFind then Inl StoreError
      else Inr (filter (\<lambda>p. \<not> idIn (p_id p) ids) (products st)))"

text \<open>\<^verbatim>\<open>Product.find().sort({reviewCount: -1, rating: -1}).limit(limit)\<close>\<close>

definition Product_findTrending :: "store \<Rightarrow> int \<Rightarrow> error + product list" where
  "Product_findTrending st limit =
     (if failing st ProductFind then Inl StoreError
      else Inr (limitQ st limit
             (sort_key (\<lambda>p. (- p_reviewCount p, - p_rating p)) (products st))))"



section \<open>Strategy generators\<close>

text \<open>\<^verbatim>\<open>item.productId.toString()\<close> raises a \<^verbatim>\<open>TypeError\<close> on an entry without
  \<^verbatim>\<open>productId\<close>; \<^verbatim>\<open>map\<close> stops at the first one.\<close>

fun historyIds :: "history_item list \<Rightarrow> error + string list" where
  "historyIds [] = Inr []"
| "historyIds (item # items) =
     (case productId item of
        None \<Rightarrow> Inl TypeError
      | Some s \<Rightarrow> (case historyIds items of Inl e \<Rightarrow> Inl e | Inr ss \<Rightarrow> Inr (s # ss)))"

definition userProductIdsOf :: "user \<Rightarrow> error + string list" where
  "userProductIdsOf user =
     (case historyIds (u_viewHistory user) of
        Inl e \<Rightarrow> Inl e
      | Inr viewed \<Rightarrow>
          (case historyIds (u_purchases user) of
             Inl e \<Rightarrow> Inl e
           | Inr purchased \<Rightarrow> Inr (viewed @ purchased)))"

text \<open>A JavaScript \<^verbatim>\<open>Set\<close> that is later enumerated (\<^verbatim>\<open>Array.from\<close>): its elements in
  insertion order.\<close>

definition setAdd :: "string list \<Rightarrow> string \<Rightarrow> string list" where
  "setAdd s x = (if x \<in> set s then s else s @ [x])"

text \<open>The iteration over \<^verbatim>\<open>similarUsers\<close> (lines 123-132).\<close>

fun collectSimilar :: "string list \<Rightarrow> user list \<Rightarrow> string list \<Rightarrow> error + string list" where
  "collectSimilar userProductIds [] similarUserProductIds = Inr similarUserProductIds"
| "collectSimilar userProductIds (similarUser # rest) similarUserProductIds =
     (case historyIds (u_viewHistory similarUser) of
        Inl e \<Rightarrow> Inl e
      | Inr viewedProducts \<Rightarrow>
          (case historyIds (u_purchases similarUser) of
             Inl e \<Rightarrow> Inl e
           | Inr purchasedProducts \<Rightarrow>
               collectSimilar userProductIds rest
                 (foldl (\<lambda>s pid. if pid \<notin> set userProductIds then setAdd s pid else s)
                    similarUserProductIds (viewedProducts @ purchasedProducts))))"

text \<open>The body of the \<^verbatim>\<open>try\<close> block of \<^verbatim>\<open>getCollaborativeRecommendations\<close>.\<close>

definition collaborativeBody :: "store \<Rightarrow> string \<Rightarrow> int \<Rightarrow> error + product list" where
  "collaborativeBody st userId limit =
     (case User_findById st userId of
        Inl e \<Rightarrow> Inl e
      | Inr None \<Rightarrow> Inr []
      | Inr (Some user) \<Rightarrow>
          (case userProductIdsOf user of
             Inl e \<Rightarrow> Inl e
           | Inr userProductIds \<Rightarrow>
               (case User_findSimilar st userId userProductIds of
                  Inl e \<Rightarrow> Inl e
                | Inr similarUsers \<Rightarrow>
                    (case collectSimilar userProductIds similarUsers [] of
                       Inl e \<Rightarrow> Inl e
                     | Inr similarUserProductIds \<Rightarrow>
                         Product_findIn st similarUserProductIds limit))))"

definition getCollaborativeRecommendations :: "store \<Rightarrow> string \<Rightarrow> int \<Rightarrow> product list" where
  "getCollaborativeRecommendations st userId limit =
     (case collaborativeBody st userId limit of Inl e \<Rightarrow> [] | Inr r \<Rightarrow> r)"

text \<open>\<^verbatim>\<open>xs.slice(0, n)\<close>: a negative \<open>n\<close> counts from the end of the array.\<close>

definition slice0 :: "int \<Rightarrow> 'a list \<Rightarrow> 'a list" where
  "slice0 n xs = (if 0 \<le> n then take (nat n) xs else take (length xs - nat (- n)) xs)"

fun scoreAll :: "preferences option \<Rightarrow> product list \<Rightarrow> error + (product \<times> rat) list" where
  "scoreAll prefs [] = Inr []"
| "scoreAll prefs (p # ps) =
     (case calculateSimilarityScore prefs p of
        Inl e \<Rightarrow> Inl e
      | Inr s \<Rightarrow> (case scoreAll prefs ps of Inl e \<Rightarrow> Inl e | Inr r \<Rightarrow> Inr ((p, s) # r)))"

text \<open>The body of the \<^verbatim>\<open>try\<close> block of \<^verbatim>\<open>getContentBasedRecommendations\<close>.
  \<^verbatim>\<open>Array.prototype.sort\<close> is stable, and so is \<open>sort_key\<close>; the comparator
  \<^verbatim>\<open>b.score - a.score\<close> sorts by descending score.\<close>

definition contentBasedBody :: "store \<Rightarrow> string \<Rightarrow> int \<Rightarrow> error + product list" where
  "contentBasedBody st userId limit =
     (case User_findById st userId of
        Inl e \<Rightarrow> Inl e
      | Inr None \<Rightarrow> Inr []
      | Inr (Some user) \<Rightarrow>
          (case u_preferences user of
             None \<Rightarrow> Inr []
           | Some prefs \<Rightarrow>
               (case userProductIdsOf user of
                  Inl e \<Rightarrow> Inl e
                | Inr userProductIds \<Rightarrow>
                    (case Product_findNotIn st userProductIds of
                       Inl e \<Rightarrow> Inl e
                     | Inr allProducts \<Rightarrow>
                         (case scoreAll (u_preferences user) allProducts of
                            Inl e \<Rightarrow> Inl e
                          | Inr scoredProducts \<Rightarrow>
                              Inr (map fst (slice0 limit
                                     (sort_key (\<lambda>item. - snd item) scoredProducts))))))))"

definition getContentBasedRecommendations :: "store \<Rightarrow> string \<Rightarrow> int \<Rightarrow> product list" where
  "getContentBasedRecommendations st userId limit =
     (case contentBasedBody st userId limit of Inl e \<Rightarrow> [] | Inr r \<Rightarrow> r)"

definition getTrendingProducts :: "store \<Rightarrow> int \<Rightarrow> product list" where
  "getTrendingProducts st limit =
     (case Product_findTrending st limit of Inl e \<Rightarrow> [] | Inr r \<Rightarrow> r)"

section \<open>Blender\<close>

text \<open>The response object; a key that the object does not have is \<open>None\<close>.\<close>

record response =
  recommendations :: "product list"
  contentBased :: "product list option"
  collaborative :: "product list option"
  trending :: "product list"

text \<open>
  The first two merge passes (lines 231-246) over the state \<^verbatim>\<open>seenIds\<close>,
  \<^verbatim>\<open>combinedRecommendations\<close>. \<^verbatim>\<open>product._id.toString()\<close> raises a \<^verbatim>\<open>TypeError\<close> on
  a product without \<^verbatim>\<open>_id\<close>.
\<close>

fun addUnseen ::
  "product list \<Rightarrow> string set \<times> product list \<Rightarrow> error + string set \<times> product list" where
  "addUnseen [] s = Inr s"
| "addUnseen (product # rest) (seenIds, combined) =
     (case p_id product of
        None \<Rightarrow> Inl TypeError
      | Some i \<Rightarrow>
          if i \<notin> seenIds
          then addUnseen rest (insert i seenIds, combined @ [product])
          else addUnseen rest (seenIds, combined))"

text \<open>The trending pass (lines 249-255).\<close>

fun addTrending ::
  "int \<Rightarrow> product list \<Rightarrow> string set \<times> product list \<Rightarrow> error + string set \<times> product list"
  where
  "addTrending limit [] s = Inr s"
| "addTrending limit (product # rest) (seenIds, combined) =
     (case p_id product of
        None \<Rightarrow> Inl TypeError
      | Some i \<Rightarrow>
          if i \<notin> seenIds \<and> int (length combined) < limit
          then addTrending limit rest (insert i seenIds, combined @ [product])
          else addTrending limit rest (seenIds, combined))"

definition mergePasses ::
  "product list \<Rightarrow> product list \<Rightarrow> product list \<Rightarrow> int \<Rightarrow> error + string set \<times> product list"
  where
  "mergePasses contentBasedL collaborativeL trendingL limit =
     (case addUnseen collaborativeL ({}, []) of
        Inl e \<Rightarrow> Inl e
      | Inr s1 \<Rightarrow>
          (case addUnseen contentBasedL s1 of
             Inl e \<Rightarrow> Inl e
           | Inr s2 \<Rightarrow> addTrending limit trendingL s2))"

definition emptyShape :: response where
  "emptyShape =
     \<lparr>recommendations = [], contentBased = Some [], collaborative = Some [], trending = []\<rparr>"

text \<open>Lines 226-271: what \<^verbatim>\<open>getRecommendations\<close> does with the three lists once
  \<^verbatim>\<open>Promise.all\<close> has delivered them, the \<^verbatim>\<open>catch\<close> included.\<close>

definition combine :: "product list \<Rightarrow> product list \<Rightarrow> product list \<Rightarrow> int \<Rightarrow> response" where
  "combine contentBasedL collaborativeL trendingL limit =
     (case mergePasses contentBasedL collaborativeL trendingL limit of
        Inl e \<Rightarrow> emptyShape
      | Inr (seenIds, combinedRecommendations) \<Rightarrow>
          \<lparr>recommendations = slice0 limit combinedRecommendations,
           contentBased = Some contentBasedL,
           collaborative = Some collaborativeL,
           trending = trendingL\<rparr>)"


definition getRecommendations :: "store \<Rightarrow> string option \<Rightarrow> int \<Rightarrow> response" where
  "getRecommendations st userId limit =
     (case userId of
        None \<Rightarrow>
          (let t = getTrendingProducts st limit
           in \<lparr>recommendations = t, contentBased = None, collaborative = None, trending = t\<rparr>)
      | Some uid \<Rightarrow>
          if uid = []
          then (let t = getTrendingProducts st limit
                in \<lparr>recommendations = t, contentBased = None, collaborative = None,
                    trending = t\<rparr>)
          else combine (getContentBasedRecommendations st uid (limit div 2))
                 (getCollaborativeRecommendations st uid (limit div 2))
                 (getTrendingProducts st (limit div 3)) limit)"

section \<open>History mutators\<close>



section \<open>The merge as the specification words it\<close>

text \<open>
  "Each added only if its product id was not already added (first-seen wins)": of the
  products with one id only the first stays.
\<close>

fun firstSeen :: "product list \<Rightarrow> product list" where
  "firstSeen [] = []"
| "firstSeen (p # ps) = p # firstSeen (filter (\<lambda>q. p_id q \<noteq> p_id p) ps)"

text \<open>
  "Collaborative first, then content-based, then trending"; "the trending pass additionally
  stops once the combined list reaches \<^verbatim>\<open>limit\<close>".
\<close>

definition mergedSpec ::
  "product list \<Rightarrow> product list \<Rightarrow> product list \<Rightarrow> int \<Rightarrow> product list" where
  "mergedSpec collaborativeL contentBasedL trendingL limit =
     (let higher = firstSeen (collaborativeL @ contentBasedL);
          fresh = filter (\<lambda>t. p_id t \<notin> p_id ` set higher) (firstSeen trendingL)
      in higher @ take (nat (limit - int (length higher))) fresh)"

text \<open>The invariant of the three merge passes: the ids of the combined list are pairwise
  different and all recorded in \<^verbatim>\<open>seenIds\<close>.\<close>

definition mergeInv :: "string set \<times> product list \<Rightarrow> bool" where
  "mergeInv s = (distinct (map p_id (snd s)) \<and> p_id ` set (snd s) \<subseteq> Some ` fst s)"

section \<open>Example data\<close>

definition mkProduct :: "string \<Rightarrow> product" where
  "mkProduct i = \<lparr>p_id = Some i, p_name = i, p_category = ''c'', p_price = 1,
      p_tags = Some [], p_rating = 0, p_reviewCount = 0\<rparr>"

text \<open>Modelled from the spec: a query "limited to \<^verbatim>\<open>limit\<close>" fetches "up to
  \<^verbatim>\<open>limit\<close>" documents. The store of the examples follows this policy.\<close>

definition upTo :: "int \<Rightarrow> nat \<Rightarrow> nat" where
  "upTo n k = min (nat n) k"

definition demoProduct :: "string \<Rightarrow> string \<Rightarrow> int \<Rightarrow> product" where
  "demoProduct i c n = \<lparr>p_id = Some i, p_name = i, p_category = c, p_price = 10,
      p_tags = Some [''x''], p_rating = 4, p_reviewCount = n\<rparr>"

definition demoUser :: "string \<Rightarrow> string list \<Rightarrow> string list \<Rightarrow> user" where
  "demoUser i viewed purchased =
     \<lparr>u_id = i, u_name = i, u_email = i @ ''@example.org'', u_password = ''secret'',
      u_preferences = Some \<lparr>categories = Some [''books''], priceRange = None, tags = None\<rparr>,
      u_viewHistory = map (\<lambda>p. \<lparr>productId = Some p, timestamp = 1\<rparr>) viewed,
      u_purchases = map (\<lambda>p. \<lparr>productId = Some p, timestamp = 2\<rparr>) purchased,
      u_createdAt = 0\<rparr>"

definition demoStore :: store where
  "demoStore =
     \<lparr>users = [demoUser ''u1'' [''A''] [], demoUser ''u2'' [''A'', ''B''] [''C'']],
      products = [demoProduct ''A'' ''books'' 5, demoProduct ''B'' ''toys'' 3,
                  demoProduct ''C'' ''books'' 7],
      limitPolicy = upTo,
      failing = (\<lambda>q. False)\<rparr>"

lemmas demo_defs = demoStore_def demoUser_def demoProduct_def upTo_def
  getRecommendations_def combine_def mergePasses_def
  getContentBasedRecommendations_def contentBasedBody_def
  getCollaborativeRecommendations_def collaborativeBody_def
  getTrendingProducts_def Product_findTrending_def Product_findIn_def Product_findNotIn_def
  User_findById_def User_findSimilar_def userProductIdsOf_def limitQ_def slice0_def idIn_def
  setAdd_def calculateSimilarityScore_def categoryComponent_def priceComponent_def
  tagComponent_def matchingTags_def

section \<open>Properties of the scorer\<close>

lemma length_matchingTags_distinct:
  assumes "distinct pts"
  shows "length (matchingTags pts ts) \<le> length ts"
proof -
  have d: "distinct (matchingTags pts ts)"
    using assms by (simp add: matchingTags_def)
  have "set (matchingTags pts ts) \<subseteq> set ts"
    by (auto simp: matchingTags_def)
  then have "card (set (matchingTags pts ts)) \<le> card (set ts)"
    by (simp add: card_mono)
  also have "\<dots> \<le> length ts" by (rule card_length)
  finally show ?thesis using d by (simp add: distinct_card)
qed

lemma categoryComponent_bounds:
  "0 \<le> fst (categoryComponent up product) \<and>
   fst (categoryComponent up product) \<le> snd (categoryComponent up product)"
  by (simp add: categoryComponent_def split: option.splits)

lemma priceComponent_bounds:
  "0 \<le> fst (priceComponent up product) \<and>
   fst (priceComponent up product) \<le> snd (priceComponent up product)"
  by (simp add: priceComponent_def split: option.splits)

lemma tagComponent_bounds:
  assumes "\<And>pts. p_tags product = Some pts \<Longrightarrow> distinct pts"
  shows "0 \<le> fst (tagComponent up product) \<and>
         fst (tagComponent up product) \<le> snd (tagComponent up product)"
proof (cases "tags up")
  case None
  then show ?thesis by (simp add: tagComponent_def)
next
  case (Some ts)
  note pref = this
  show ?thesis
  proof (cases "p_tags product")
    case None
    then show ?thesis using pref by (simp add: tagComponent_def)
  next
    case (Some pts)
    note pt = this
    show ?thesis
    proof (cases "ts = []")
      case True
      then show ?thesis using pref by (simp add: tagComponent_def)
    next
      case False
      have le: "length (matchingTags pts ts) \<le> length ts"
        using assms[OF pt] by (rule length_matchingTags_distinct)
      have pos: "0 < length ts" using False by simp
      have "(of_nat (length (matchingTags pts ts)) :: rat) \<le> of_nat (length ts)"
        using le by simp
      then have "(of_nat (length (matchingTags pts ts)) :: rat) / of_nat (length ts) \<le> 1"
        using pos by (simp add: divide_le_eq)
      moreover have "max (length ts) 1 = length ts"
        using False by (cases ts) simp_all
      moreover have "(0::rat) \<le> of_nat (length (matchingTags pts ts)) / of_nat (length ts)"
        by simp
      ultimately have
        "0 \<le> (of_nat (length (matchingTags pts ts)) :: rat) / of_nat (max (length ts) 1) * (3 / 10)
         \<and> (of_nat (length (matchingTags pts ts)) :: rat) / of_nat (max (length ts) 1) * (3 / 10)
             \<le> 3 / 10"
        by simp
      then show ?thesis using pref pt False
        by (simp add: tagComponent_def)
    qed
  qed
qed

text \<open>
  Where the product's tags are free of duplicates, the score of a present preferences
  object lies in the unit interval.
\<close>

lemma score_in_unit_interval_distinct_tags:
  assumes "\<And>pts. p_tags product = Some pts \<Longrightarrow> distinct pts"
  shows "\<exists>s. calculateSimilarityScore (Some up) product = Inr s \<and> 0 \<le> s \<and> s \<le> 1"
proof -
  let ?s = "fst (categoryComponent up product) + fst (priceComponent up product)
              + fst (tagComponent up product)"
  let ?m = "snd (categoryComponent up product) + snd (priceComponent up product)
              + snd (tagComponent up product)"
  have s0: "0 \<le> ?s" and sm: "?s \<le> ?m"
    using tagComponent_bounds[of product up, OF assms] categoryComponent_bounds[of up product]
      priceComponent_bounds[of up product] by linarith+
  have "0 \<le> (if ?m > 0 then ?s / ?m else 0) \<and> (if ?m > 0 then ?s / ?m else 0) \<le> 1"
    using s0 sm by (simp add: divide_le_eq)
  then show ?thesis by (simp add: calculateSimilarityScore_def Let_def)
qed

text \<open>
  Claim C1 says that \<^verbatim>\<open>calculateSimilarityScore\<close> returns a score in the interval from 0
  to 1 for every preferences object and every product, also when the product's tags
  repeat an entry. The filter over \<^verbatim>\<open>product.tags\<close> counts every repetition: for the
  preferences \<^verbatim>\<open>{tags: ['a']}\<close> and a product with the tags \<^verbatim>\<open>['a', 'a']\<close> the score is 2.
\<close>

theorem calculateSimilarityScore_duplicate_tags:
  "calculateSimilarityScore
     (Some \<lparr>categories = None, priceRange = None, tags = Some [''a'']\<rparr>)
     \<lparr>p_id = Some ''p1'', p_name = ''n'', p_category = ''c'', p_price = 1,
      p_tags = Some [''a'', ''a''], p_rating = 0, p_reviewCount = 0\<rparr> = Inr 2"
  by (simp add: calculateSimilarityScore_def categoryComponent_def priceComponent_def
      tagComponent_def matchingTags_def)

text \<open>
  With duplicate-free product tags the number of matching tags is the size of the set
  intersection, and the tag component is the formula of the specification.
\<close>

lemma tagComponent_set_formula:
  assumes "tags up = Some ts" "ts \<noteq> []" "p_tags product = Some pts" "distinct pts"
  shows "fst (tagComponent up product) =
     of_nat (card (set pts \<inter> set ts)) / of_nat (max (length ts) 1) * (3 / 10)"
proof -
  have "set (matchingTags pts ts) = set pts \<inter> set ts"
    by (auto simp: matchingTags_def)
  moreover have "distinct (matchingTags pts ts)"
    using assms(4) by (simp add: matchingTags_def)
  ultimately have "length (matchingTags pts ts) = card (set pts \<inter> set ts)"
    using distinct_card by metis
  then show ?thesis using assms by (simp add: tagComponent_def)
qed

lemma tagComponent_example:
  "fst (tagComponent \<lparr>categories = None, priceRange = None, tags = Some [''a'', ''b'', ''c'']\<rparr>
     \<lparr>p_id = Some ''p1'', p_name = ''n'', p_category = ''c'', p_price = 1,
      p_tags = Some [''a'', ''b''], p_rating = 0, p_reviewCount = 0\<rparr>) = 2 / 10"
  by (simp add: tagComponent_def matchingTags_def)

text \<open>
  Claim C3 says that the tag component is the size of the set intersection of the
  product's tags and the preferred tags, divided by the number of preferred tags (at least
  1), times 0.3. The code counts the entries of \<^verbatim>\<open>product.tags\<close> that are preferred, with
  their repetitions: for the preferences \<^verbatim>\<open>{tags: ['a']}\<close> and a product with the tags
  \<^verbatim>\<open>['a', 'a']\<close> the component is 0.6, and the formula with the set intersection gives 0.3.
\<close>

theorem tagComponent_counts_repetitions:
  "fst (tagComponent \<lparr>categories = None, priceRange = None, tags = Some [''a'']\<rparr>
     \<lparr>p_id = Some ''p1'', p_name = ''n'', p_category = ''c'', p_price = 1,
      p_tags = Some [''a'', ''a''], p_rating = 0, p_reviewCount = 0\<rparr>) = 6 / 10
   \<and> of_nat (card (set [''a'', ''a''] \<inter> set [''a''])) / of_nat (max (length [''a'']) 1)
        * (3 / 10) = (3 / 10 :: rat)"
  by (simp add: tagComponent_def matchingTags_def)




section \<open>Properties of the merge\<close>

lemma firstSeen_filter:
  "firstSeen (filter (\<lambda>q. Q (p_id q)) xs) = filter (\<lambda>q. Q (p_id q)) (firstSeen xs)"
proof (induction xs rule: firstSeen.induct)
  case 1
  then show ?case by simp
next
  case (2 p ps)
  have comm: "filter (\<lambda>q. p_id q \<noteq> p_id p) (filter (\<lambda>q. Q (p_id q)) ps)
      = filter (\<lambda>q. Q (p_id q)) (filter (\<lambda>q. p_id q \<noteq> p_id p) ps)"
    by (simp add: conj_commute)
  show ?case
  proof (cases "Q (p_id p)")
    case True
    then show ?thesis using 2 comm by simp
  next
    case False
    have "filter (\<lambda>q. Q (p_id q)) (filter (\<lambda>q. p_id q \<noteq> p_id p) ps)
        = filter (\<lambda>q. Q (p_id q)) ps"
      using False by (auto intro: filter_cong)
    then show ?thesis using False 2 by simp
  qed
qed

lemma set_firstSeen_ids: "p_id ` set (firstSeen xs) = p_id ` set xs"
proof (induction xs rule: firstSeen.induct)
  case 1
  then show ?case by simp
next
  case (2 p ps)
  then show ?case by auto
qed

lemma firstSeen_append:
  "firstSeen (xs @ ys) = firstSeen xs @ firstSeen (filter (\<lambda>y. p_id y \<notin> p_id ` set xs) ys)"
proof (induction xs arbitrary: ys rule: firstSeen.induct)
  case 1
  then show ?case by simp
next
  case (2 p ps)
  let ?F = "filter (\<lambda>q. p_id q \<noteq> p_id p)"
  have "firstSeen ((p # ps) @ ys) = p # firstSeen (?F ps @ ?F ys)" by simp
  also have "\<dots> = p # firstSeen (?F ps)
      @ firstSeen (filter (\<lambda>y. p_id y \<notin> p_id ` set (?F ps)) (?F ys))"
    using 2 by simp
  also have "filter (\<lambda>y. p_id y \<notin> p_id ` set (?F ps)) (?F ys)
      = filter (\<lambda>y. p_id y \<notin> p_id ` set (p # ps)) ys"
    by (auto intro!: filter_cong)
  finally show ?case by simp
qed

lemma Some_ids:
  assumes "\<forall>p \<in> set ps. p_id p \<noteq> None"
  shows "Some ` {i. Some i \<in> p_id ` set ps} = p_id ` set ps"
proof
  show "Some ` {i. Some i \<in> p_id ` set ps} \<subseteq> p_id ` set ps" by auto
  show "p_id ` set ps \<subseteq> Some ` {i. Some i \<in> p_id ` set ps}"
  proof
    fix x assume x: "x \<in> p_id ` set ps"
    then obtain i where "x = Some i" using assms by (cases x) auto
    then show "x \<in> Some ` {i. Some i \<in> p_id ` set ps}" using x by simp
  qed
qed

lemma addUnseen_firstSeen:
  assumes "\<forall>p \<in> set ps. p_id p \<noteq> None"
  shows "addUnseen ps (seenIds, combined) =
     Inr (seenIds \<union> {i. Some i \<in> p_id ` set ps},
          combined @ firstSeen (filter (\<lambda>q. p_id q \<notin> Some ` seenIds) ps))"
  using assms
proof (induction ps arbitrary: seenIds combined)
  case Nil
  then show ?case by simp
next
  case (Cons p ps)
  then obtain i where i: "p_id p = Some i" by auto
  have rest: "\<forall>q \<in> set ps. p_id q \<noteq> None" using Cons.prems by simp
  show ?case
  proof (cases "i \<in> seenIds")
    case True
    have "seenIds \<union> {j. Some j \<in> p_id ` set (p # ps)}
        = seenIds \<union> {j. Some j \<in> p_id ` set ps}"
      using True i by auto
    moreover have "p_id p \<in> Some ` seenIds" using True i by simp
    ultimately show ?thesis using True i Cons.IH[OF rest, of seenIds combined] by simp
  next
    case False
    have f: "filter (\<lambda>q. p_id q \<noteq> p_id p) (filter (\<lambda>q. p_id q \<notin> Some ` seenIds) ps)
        = filter (\<lambda>q. p_id q \<notin> Some ` insert i seenIds) ps"
      using i by (auto intro!: filter_cong)
    have s: "insert i seenIds \<union> {j. Some j \<in> p_id ` set ps}
        = seenIds \<union> {j. Some j \<in> p_id ` set (p # ps)}"
      using i by auto
    have "p_id p \<notin> Some ` seenIds" using False i by auto
    then show ?thesis
      using False i Cons.IH[OF rest, of "insert i seenIds" "combined @ [p]"] f s
      by simp
  qed
qed

lemma addTrending_firstSeen:
  assumes "\<forall>p \<in> set ps. p_id p \<noteq> None"
  shows "\<exists>seen'. addTrending limit ps (seenIds, combined) =
     Inr (seen', combined @ take (nat (limit - int (length combined)))
                   (firstSeen (filter (\<lambda>q. p_id q \<notin> Some ` seenIds) ps)))"
  using assms
proof (induction ps arbitrary: seenIds combined)
  case Nil
  then show ?case by simp
next
  case (Cons p ps)
  then obtain i where i: "p_id p = Some i" by auto
  have rest: "\<forall>q \<in> set ps. p_id q \<noteq> None" using Cons.prems by simp
  show ?case
  proof (cases "i \<in> seenIds")
    case True
    then have "p_id p \<in> Some ` seenIds" using i by simp
    then show ?thesis using True i Cons.IH[OF rest, of seenIds combined] by simp
  next
    case False
    note unseen = this
    have notin: "p_id p \<notin> Some ` seenIds" using False i by auto
    show ?thesis
    proof (cases "int (length combined) < limit")
      case True
      have f: "filter (\<lambda>q. p_id q \<noteq> p_id p) (filter (\<lambda>q. p_id q \<notin> Some ` seenIds) ps)
          = filter (\<lambda>q. p_id q \<notin> Some ` insert i seenIds) ps"
        using i by (auto intro!: filter_cong)
      obtain k where k: "nat (limit - int (length combined)) = Suc k"
        and k': "nat (limit - int (length (combined @ [p]))) = k"
        using True by (cases "nat (limit - int (length combined))") auto
      from Cons.IH[OF rest, of "insert i seenIds" "combined @ [p]"]
      obtain seen' where "addTrending limit ps (insert i seenIds, combined @ [p]) =
          Inr (seen', (combined @ [p])
                 @ take k (firstSeen (filter (\<lambda>q. p_id q \<notin> Some ` insert i seenIds) ps)))"
        using k' by auto
      then show ?thesis using True unseen i notin f k by simp
    next
      case False
      then have z: "nat (limit - int (length combined)) = 0" by simp
      show ?thesis using False unseen i Cons.IH[OF rest, of seenIds combined] z by simp
    qed
  qed
qed

lemma mergePasses_mergedSpec:
  assumes "\<forall>p \<in> set (collaborativeL @ contentBasedL @ trendingL). p_id p \<noteq> None"
  shows "\<exists>seen'. mergePasses contentBasedL collaborativeL trendingL limit =
     Inr (seen', mergedSpec collaborativeL contentBasedL trendingL limit)"
proof -
  have co: "\<forall>p \<in> set collaborativeL. p_id p \<noteq> None"
    and cb: "\<forall>p \<in> set contentBasedL. p_id p \<noteq> None"
    and tr: "\<forall>p \<in> set trendingL. p_id p \<noteq> None"
    using assms by auto
  let ?s1 = "{i. Some i \<in> p_id ` set collaborativeL}"
  let ?s2 = "?s1 \<union> {i. Some i \<in> p_id ` set contentBasedL}"
  let ?higher = "firstSeen (collaborativeL @ contentBasedL)"
  have e1: "Some ` ?s1 = p_id ` set collaborativeL"
    using co by (rule Some_ids)
  have "Some ` ?s2 = Some ` ?s1 \<union> Some ` {i. Some i \<in> p_id ` set contentBasedL}"
    by (rule image_Un)
  also have "\<dots> = p_id ` set collaborativeL \<union> p_id ` set contentBasedL"
    using e1 Some_ids[OF cb] by simp
  finally have e2: "Some ` ?s2 = p_id ` set ?higher"
    by (simp add: set_firstSeen_ids image_Un)
  have l1: "addUnseen collaborativeL ({}, []) = Inr (?s1, firstSeen collaborativeL)"
    using addUnseen_firstSeen[OF co, of "{}" "[]"] by simp
  have l2: "addUnseen contentBasedL (?s1, firstSeen collaborativeL) = Inr (?s2, ?higher)"
    using addUnseen_firstSeen[OF cb, of ?s1 "firstSeen collaborativeL"]
    by (simp only: e1 firstSeen_append)
  obtain seen' where l3: "addTrending limit trendingL (?s2, ?higher) =
     Inr (seen', ?higher @ take (nat (limit - int (length ?higher)))
                   (firstSeen (filter (\<lambda>q. p_id q \<notin> Some ` ?s2) trendingL)))"
    using addTrending_firstSeen[OF tr, of limit ?s2 ?higher] by blast
  have "firstSeen (filter (\<lambda>q. p_id q \<notin> Some ` ?s2) trendingL)
      = filter (\<lambda>t. p_id t \<notin> p_id ` set ?higher) (firstSeen trendingL)"
    unfolding e2 by (rule firstSeen_filter)
  then have "addTrending limit trendingL (?s2, ?higher) =
     Inr (seen', mergedSpec collaborativeL contentBasedL trendingL limit)"
    using l3 by (simp add: mergedSpec_def Let_def)
  then show ?thesis using l1 l2 by (simp add: mergePasses_def)
qed

lemma getRecommendations_present:
  "userId \<noteq> [] \<Longrightarrow> getRecommendations st (Some userId) limit =
     combine (getContentBasedRecommendations st userId (limit div 2))
       (getCollaborativeRecommendations st userId (limit div 2))
       (getTrendingProducts st (limit div 3)) limit"
  by (simp add: getRecommendations_def)

lemma mergedSpec_take:
  assumes "0 \<le> limit"
  shows "slice0 limit (mergedSpec collaborativeL contentBasedL trendingL limit) =
     take (nat limit) (firstSeen (collaborativeL @ contentBasedL @ trendingL))"
proof -
  let ?higher = "firstSeen (collaborativeL @ contentBasedL)"
  let ?fresh = "filter (\<lambda>t. p_id t \<notin> p_id ` set ?higher) (firstSeen trendingL)"
  have "firstSeen ((collaborativeL @ contentBasedL) @ trendingL) =
      ?higher @ firstSeen
        (filter (\<lambda>y. p_id y \<notin> p_id ` set (collaborativeL @ contentBasedL)) trendingL)"
    by (rule firstSeen_append)
  also have "firstSeen
        (filter (\<lambda>y. p_id y \<notin> p_id ` set (collaborativeL @ contentBasedL)) trendingL)
      = filter (\<lambda>y. p_id y \<notin> p_id ` set (collaborativeL @ contentBasedL))
          (firstSeen trendingL)"
    by (rule firstSeen_filter)
  also have "p_id ` set (collaborativeL @ contentBasedL) = p_id ` set ?higher"
    by (rule set_firstSeen_ids[symmetric])
  finally have all: "firstSeen (collaborativeL @ contentBasedL @ trendingL) = ?higher @ ?fresh"
    by simp
  have n: "nat (limit - int (length ?higher)) = nat limit - length ?higher"
    using assms by linarith
  have "slice0 limit (mergedSpec collaborativeL contentBasedL trendingL limit)
      = take (nat limit) (?higher @ take (nat limit - length ?higher) ?fresh)"
    using assms n by (simp add: slice0_def mergedSpec_def Let_def)
  also have "\<dots> = take (nat limit) (?higher @ ?fresh)"
    by simp
  finally show ?thesis using all by simp
qed

text \<open>
  Claim C2: with a user id, \<^verbatim>\<open>getRecommendations\<close> merges the three lists in the order
  collaborative, content-based, trending; a product is added only if its id was not added
  before; the trending pass stops adding once the combined list has \<^verbatim>\<open>limit\<close> entries;
  the result is cut with \<^verbatim>\<open>slice(0, limit)\<close>, which for a limit that is not negative
  leaves the first \<^verbatim>\<open>limit\<close> products of the de-duplicated concatenation. The lists are
  those of products as the store delivers them, each with an \<^verbatim>\<open>_id\<close>. At the lists of
  the specification's example the theorem gives P1, P2, P3.
\<close>

theorem combine_merge_priority:
  assumes "\<forall>p \<in> set (collaborativeL @ contentBasedL @ trendingL). p_id p \<noteq> None"
  shows "recommendations (combine contentBasedL collaborativeL trendingL limit) =
       slice0 limit (mergedSpec collaborativeL contentBasedL trendingL limit)
     \<and> (0 \<le> limit \<longrightarrow>
          recommendations (combine contentBasedL collaborativeL trendingL limit) =
          take (nat limit) (firstSeen (collaborativeL @ contentBasedL @ trendingL)))
     \<and> (userId \<noteq> [] \<and>
        contentBasedL = getContentBasedRecommendations st userId (limit div 2) \<and>
        collaborativeL = getCollaborativeRecommendations st userId (limit div 2) \<and>
        trendingL = getTrendingProducts st (limit div 3) \<longrightarrow>
          recommendations (getRecommendations st (Some userId) limit) =
          slice0 limit (mergedSpec collaborativeL contentBasedL trendingL limit))"
proof -
  obtain seen' where "mergePasses contentBasedL collaborativeL trendingL limit =
     Inr (seen', mergedSpec collaborativeL contentBasedL trendingL limit)"
    using mergePasses_mergedSpec[OF assms] by blast
  then have m: "recommendations (combine contentBasedL collaborativeL trendingL limit) =
       slice0 limit (mergedSpec collaborativeL contentBasedL trendingL limit)"
    by (simp add: combine_def)
  have n: "0 \<le> limit \<longrightarrow>
          recommendations (combine contentBasedL collaborativeL trendingL limit) =
          take (nat limit) (firstSeen (collaborativeL @ contentBasedL @ trendingL))"
    using m by (simp add: mergedSpec_take)
  have g: "userId \<noteq> [] \<and>
        contentBasedL = getContentBasedRecommendations st userId (limit div 2) \<and>
        collaborativeL = getCollaborativeRecommendations st userId (limit div 2) \<and>
        trendingL = getTrendingProducts st (limit div 3) \<longrightarrow>
          recommendations (getRecommendations st (Some userId) limit) =
          slice0 limit (mergedSpec collaborativeL contentBasedL trendingL limit)"
  proof
    assume a: "userId \<noteq> [] \<and>
        contentBasedL = getContentBasedRecommendations st userId (limit div 2) \<and>
        collaborativeL = getCollaborativeRecommendations st userId (limit div 2) \<and>
        trendingL = getTrendingProducts st (limit div 3)"
    then have "getRecommendations st (Some userId) limit =
        combine contentBasedL collaborativeL trendingL limit"
      using getRecommendations_present[of userId st limit] by simp
    then show "recommendations (getRecommendations st (Some userId) limit) =
          slice0 limit (mergedSpec collaborativeL contentBasedL trendingL limit)"
      using m by simp
  qed
  show ?thesis using m n g by blast
qed

theorem combine_merge_priority_witness:
  "None \<notin> p_id ` set ([mkProduct ''P1'', mkProduct ''P2''] @ [mkProduct ''P2'', mkProduct ''P3'']
            @ [mkProduct ''P3'', mkProduct ''P4''])
   \<and> recommendations (combine [mkProduct ''P2'', mkProduct ''P3'']
        [mkProduct ''P1'', mkProduct ''P2''] [mkProduct ''P3'', mkProduct ''P4''] 3)
      = [mkProduct ''P1'', mkProduct ''P2'', mkProduct ''P3'']
   \<and> take (nat 3) (firstSeen ([mkProduct ''P1'', mkProduct ''P2'']
        @ [mkProduct ''P2'', mkProduct ''P3''] @ [mkProduct ''P3'', mkProduct ''P4'']))
      = [mkProduct ''P1'', mkProduct ''P2'', mkProduct ''P3'']
   \<and> ''u1'' \<noteq> []
   \<and> recommendations (getRecommendations demoStore (Some ''u1'') 4)
      = [demoProduct ''B'' ''toys'' 3, demoProduct ''C'' ''books'' 7]"
proof -
  have ex: "recommendations (combine [mkProduct ''P2'', mkProduct ''P3'']
        [mkProduct ''P1'', mkProduct ''P2''] [mkProduct ''P3'', mkProduct ''P4''] 3)
      = [mkProduct ''P1'', mkProduct ''P2'', mkProduct ''P3'']
    \<and> take (nat 3) (firstSeen ([mkProduct ''P1'', mkProduct ''P2'']
        @ [mkProduct ''P2'', mkProduct ''P3''] @ [mkProduct ''P3'', mkProduct ''P4'']))
      = [mkProduct ''P1'', mkProduct ''P2'', mkProduct ''P3'']"
    using combine_merge_priority
      [of "[mkProduct ''P1'', mkProduct ''P2'']" "[mkProduct ''P2'', mkProduct ''P3'']"
          "[mkProduct ''P3'', mkProduct ''P4'']" 3]
    by (simp add: mergedSpec_def slice0_def mkProduct_def)
  have cb: "getContentBasedRecommendations demoStore ''u1'' (4 div 2)
      = [demoProduct ''C'' ''books'' 7, demoProduct ''B'' ''toys'' 3]"
    by (simp add: demo_defs)
  have co: "getCollaborativeRecommendations demoStore ''u1'' (4 div 2)
      = [demoProduct ''B'' ''toys'' 3, demoProduct ''C'' ''books'' 7]"
    by (simp add: demo_defs)
  have tr: "getTrendingProducts demoStore (4 div 3) = [demoProduct ''C'' ''books'' 7]"
    by (simp add: demo_defs)
  have "recommendations (getRecommendations demoStore (Some ''u1'') 4)
      = [demoProduct ''B'' ''toys'' 3, demoProduct ''C'' ''books'' 7]"
    using combine_merge_priority
      [of "[demoProduct ''B'' ''toys'' 3, demoProduct ''C'' ''books'' 7]"
          "[demoProduct ''C'' ''books'' 7, demoProduct ''B'' ''toys'' 3]"
          "[demoProduct ''C'' ''books'' 7]" 4 "''u1''" demoStore]
      cb co tr
    by (simp add: mergedSpec_def slice0_def demoProduct_def)
  then show ?thesis using ex by (simp add: mkProduct_def)
qed

lemma addUnseen_inv:
  "addUnseen ps s = Inr s' \<Longrightarrow> mergeInv s \<Longrightarrow> mergeInv s'"
proof (induction ps s rule: addUnseen.induct)
  case (1 s)
  then show ?case by simp
next
  case (2 product rest seenIds combined)
  from "2.prems"(1) obtain i where i: "p_id product = Some i"
    by (cases "p_id product") auto
  show ?case
  proof (cases "i \<in> seenIds")
    case True
    then show ?thesis using 2 i by simp
  next
    case False
    have "mergeInv (insert i seenIds, combined @ [product])"
      using "2.prems"(2) False i by (auto simp: mergeInv_def)
    then show ?thesis using 2 i False by simp
  qed
qed

lemma addTrending_inv:
  "addTrending limit ps s = Inr s' \<Longrightarrow> mergeInv s \<Longrightarrow> mergeInv s'"
proof (induction limit ps s rule: addTrending.induct)
  case (1 limit s)
  then show ?case by simp
next
  case (2 limit product rest seenIds combined)
  from "2.prems"(1) obtain i where i: "p_id product = Some i"
    by (cases "p_id product") auto
  show ?case
  proof (cases "i \<notin> seenIds \<and> int (length combined) < limit")
    case False
    then show ?thesis using 2 i by auto
  next
    case True
    have "mergeInv (insert i seenIds, combined @ [product])"
      using "2.prems"(2) True i by (auto simp: mergeInv_def)
    then show ?thesis using 2 i True by simp
  qed
qed

lemma mergePasses_inv:
  assumes "mergePasses contentBasedL collaborativeL trendingL limit = Inr s"
  shows "mergeInv s"
proof -
  from assms obtain s1 s2 where
    a1: "addUnseen collaborativeL ({}, []) = Inr s1" and
    a2: "addUnseen contentBasedL s1 = Inr s2" and
    a3: "addTrending limit trendingL s2 = Inr s"
    by (auto simp: mergePasses_def split: sum.splits)
  have "mergeInv ({}, [])" by (simp add: mergeInv_def)
  then show ?thesis using a1 a2 a3 addUnseen_inv addTrending_inv by blast
qed

lemma distinct_slice0: "distinct (map f xs) \<Longrightarrow> distinct (map f (slice0 n xs))"
  by (simp add: slice0_def take_map[symmetric] del: take_map)

lemma combine_distinct:
  "distinct (map p_id (recommendations (combine contentBasedL collaborativeL trendingL limit)))"
proof (cases "mergePasses contentBasedL collaborativeL trendingL limit")
  case (Inl e)
  then show ?thesis by (simp add: combine_def emptyShape_def)
next
  case (Inr s)
  then have "distinct (map p_id (snd s))"
    using mergePasses_inv by (auto simp: mergeInv_def)
  then show ?thesis using Inr by (cases s) (simp add: combine_def distinct_slice0)
qed

text \<open>
  Claim C9: whatever lists the three generators deliver, also lists that repeat a product
  id, the merged \<^verbatim>\<open>recommendations\<close> of \<^verbatim>\<open>getRecommendations\<close> with a user id hold every
  product id at most once.
\<close>

theorem getRecommendations_distinct_ids:
  "distinct (map p_id (recommendations (combine contentBasedL collaborativeL trendingL limit)))
   \<and> (userId \<noteq> [] \<longrightarrow>
        distinct (map p_id (recommendations (getRecommendations st (Some userId) n))))"
  by (simp add: combine_distinct getRecommendations_present)

theorem getRecommendations_distinct_ids_witness:
  "''u1'' \<noteq> []
   \<and> distinct (map p_id (recommendations
        (combine [mkProduct ''P2'', mkProduct ''P2''] [mkProduct ''P1'', mkProduct ''P1'']
           [mkProduct ''P1'', mkProduct ''P3''] 5)))
   \<and> recommendations
        (combine [mkProduct ''P2'', mkProduct ''P2''] [mkProduct ''P1'', mkProduct ''P1'']
           [mkProduct ''P1'', mkProduct ''P3''] 5)
      = [mkProduct ''P1'', mkProduct ''P2'', mkProduct ''P3'']
   \<and> distinct (map p_id (recommendations (getRecommendations demoStore (Some ''u1'') 4)))"
proof -
  have "recommendations
        (combine [mkProduct ''P2'', mkProduct ''P2''] [mkProduct ''P1'', mkProduct ''P1'']
           [mkProduct ''P1'', mkProduct ''P3''] 5)
      = [mkProduct ''P1'', mkProduct ''P2'', mkProduct ''P3'']"
    by (simp add: combine_def mergePasses_def slice0_def mkProduct_def)
  then show ?thesis
    using getRecommendations_distinct_ids
      [of "[mkProduct ''P2'', mkProduct ''P2'']" "[mkProduct ''P1'', mkProduct ''P1'']"
          "[mkProduct ''P1'', mkProduct ''P3'']" 5 "''u1''" demoStore 4]
    by simp
qed

section \<open>Properties of the generators and of the blender\<close>


lemma set_limitQ: "set (limitQ st n xs) \<subseteq> set xs"
  by (simp add: limitQ_def set_take_subset)

lemma set_slice0: "set (slice0 n xs) \<subseteq> set xs"
  by (simp add: slice0_def set_take_subset)





lemma historyIds_mem:
  "historyIds items = Inr ss \<Longrightarrow> item \<in> set items \<Longrightarrow> productId item = Some pid
   \<Longrightarrow> pid \<in> set ss"
  by (induction items arbitrary: ss) (auto split: option.splits sum.splits)

lemma userProductIdsOf_mem:
  assumes "userProductIdsOf user = Inr ids"
    and "item \<in> set (u_viewHistory user) \<union> set (u_purchases user)"
    and "productId item = Some pid"
  shows "pid \<in> set ids"
  using assms
  by (auto simp: userProductIdsOf_def split: sum.splits dest: historyIds_mem)

lemma scoreAll_fst: "scoreAll prefs ps = Inr scored \<Longrightarrow> map fst scored = ps"
  by (induction ps arbitrary: scored) (auto split: sum.splits)

lemma contentBasedBody_subset:
  assumes "contentBasedBody st userId limit = Inr r"
    and "User_findById st userId = Inr (Some user)"
    and "userProductIdsOf user = Inr ids"
  shows "set r \<subseteq> {p \<in> set (products st). \<not> idIn (p_id p) ids}"
proof (cases "u_preferences user")
  case None
  then show ?thesis using assms by (simp add: contentBasedBody_def)
next
  case (Some prefs)
  from assms Some obtain allProducts scored where
    q: "Product_findNotIn st ids = Inr allProducts" and
    sc: "scoreAll (u_preferences user) allProducts = Inr scored" and
    r: "r = map fst (slice0 limit (sort_key (\<lambda>item. - snd item) scored))"
    by (auto simp: contentBasedBody_def split: sum.splits)
  have "set r \<subseteq> fst ` set (sort_key (\<lambda>item. - snd item) scored)"
    unfolding r using set_slice0 by fastforce
  also have "\<dots> = set (map fst scored)" by simp
  also have "\<dots> = set allProducts" using scoreAll_fst[OF sc] by simp
  also have "\<dots> \<subseteq> {p \<in> set (products st). \<not> idIn (p_id p) ids}"
    using q by (auto simp: Product_findNotIn_def split: if_splits)
  finally show ?thesis .
qed

lemma foldl_setAdd_disjoint:
  "set acc \<inter> set ups = {} \<Longrightarrow>
   set (foldl (\<lambda>s pid. if pid \<notin> set ups then setAdd s pid else s) acc xs) \<inter> set ups = {}"
  by (induction xs arbitrary: acc) (auto simp: setAdd_def)

lemma collectSimilar_disjoint:
  "collectSimilar ups sims acc = Inr r \<Longrightarrow> set acc \<inter> set ups = {}
   \<Longrightarrow> set r \<inter> set ups = {}"
proof (induction sims arbitrary: acc)
  case Nil
  then show ?case by simp
next
  case (Cons su rest)
  from Cons.prems(1) obtain viewed purchased where
    "collectSimilar ups rest
       (foldl (\<lambda>s pid. if pid \<notin> set ups then setAdd s pid else s) acc (viewed @ purchased))
     = Inr r"
    by (auto split: sum.splits)
  then show ?case using Cons.IH foldl_setAdd_disjoint[OF Cons.prems(2)] by blast
qed

lemma collaborativeBody_subset:
  assumes "collaborativeBody st userId limit = Inr r"
    and "User_findById st userId = Inr (Some user)"
    and "userProductIdsOf user = Inr ids"
  shows "set r \<subseteq> {p \<in> set (products st). \<not> idIn (p_id p) ids}"
proof -
  from assms obtain sims cands where
    c: "collectSimilar ids sims [] = Inr cands" and
    q: "Product_findIn st cands limit = Inr r"
    by (auto simp: collaborativeBody_def split: sum.splits)
  have d: "set cands \<inter> set ids = {}" using collectSimilar_disjoint[OF c] by simp
  have "set r \<subseteq> {p \<in> set (products st). idIn (p_id p) cands}"
    using q set_limitQ[of st limit "filter (\<lambda>p. idIn (p_id p) cands) (products st)"]
    by (auto simp: Product_findIn_def split: if_splits)
  also have "\<dots> \<subseteq> {p \<in> set (products st). \<not> idIn (p_id p) ids}"
    using d by (auto simp: idIn_def split: option.splits)
  finally show ?thesis .
qed

lemma generators_store_error:
  "(failing st UserFindById \<longrightarrow>
      getCollaborativeRecommendations st userId n = [] \<and>
      getContentBasedRecommendations st userId n = [])
   \<and> (failing st UserFind \<longrightarrow> getCollaborativeRecommendations st userId n = [])
   \<and> (failing st ProductFind \<longrightarrow>
      getCollaborativeRecommendations st userId n = [] \<and>
      getContentBasedRecommendations st userId n = [] \<and>
      getTrendingProducts st n = [])"
  by (simp add: getCollaborativeRecommendations_def collaborativeBody_def
      getContentBasedRecommendations_def contentBasedBody_def getTrendingProducts_def
      User_findById_def User_findSimilar_def Product_findIn_def Product_findNotIn_def
      Product_findTrending_def split: option.splits sum.splits)

lemma history_excluded_when_found:
  assumes "User_findById st userId = Inr (Some user)"
    and "item \<in> set (u_viewHistory user) \<union> set (u_purchases user)"
    and "productId item = Some pid"
  shows "Some pid \<notin> p_id ` set (getContentBasedRecommendations st userId limit)
       \<and> Some pid \<notin> p_id ` set (getCollaborativeRecommendations st userId limit)"
proof (cases "userProductIdsOf user")
  case (Inl e)
  then show ?thesis using assms(1)
    by (simp add: getContentBasedRecommendations_def contentBasedBody_def
        getCollaborativeRecommendations_def collaborativeBody_def split: option.splits)
next
  case (Inr ids)
  note ids = this
  have pid: "pid \<in> set ids" using userProductIdsOf_mem[OF Inr assms(2,3)] .
  have excl: "\<And>r. set r \<subseteq> {p \<in> set (products st). \<not> idIn (p_id p) ids}
      \<Longrightarrow> Some pid \<notin> p_id ` set r"
    using pid by (auto simp: idIn_def split: option.splits)
  have cb: "Some pid \<notin> p_id ` set (getContentBasedRecommendations st userId limit)"
  proof (cases "contentBasedBody st userId limit")
    case (Inl e)
    then show ?thesis by (simp add: getContentBasedRecommendations_def)
  next
    case (Inr r)
    then show ?thesis using excl[OF contentBasedBody_subset[OF Inr assms(1) ids]]
      by (simp add: getContentBasedRecommendations_def)
  qed
  have co: "Some pid \<notin> p_id ` set (getCollaborativeRecommendations st userId limit)"
  proof (cases "collaborativeBody st userId limit")
    case (Inl e)
    then show ?thesis by (simp add: getCollaborativeRecommendations_def)
  next
    case (Inr r)
    then show ?thesis using excl[OF collaborativeBody_subset[OF Inr assms(1) ids]]
      by (simp add: getCollaborativeRecommendations_def)
  qed
  show ?thesis using cb co by simp
qed

text \<open>
  Claim C5: for an existing user, a product id of an entry of the user's view history or
  purchase history is the id of no product in the output of the content-based generator
  and of no product in the output of the collaborative generator.
\<close>

theorem generators_exclude_history:
  assumes "find (\<lambda>u. u_id u = userId) (users st) = Some user"
    and "item \<in> set (u_viewHistory user) \<union> set (u_purchases user)"
    and "productId item = Some pid"
  shows "Some pid \<notin> p_id ` set (getContentBasedRecommendations st userId limit)
       \<and> Some pid \<notin> p_id ` set (getCollaborativeRecommendations st userId limit)"
proof (cases "failing st UserFindById")
  case True
  then show ?thesis using generators_store_error[of st userId limit] by simp
next
  case False
  then have "User_findById st userId = Inr (Some user)"
    using assms(1) by (simp add: User_findById_def)
  then show ?thesis using assms(2,3) by (rule history_excluded_when_found)
qed

theorem generators_exclude_history_witness:
  "find (\<lambda>u. u_id u = ''u1'') (users demoStore) = Some (demoUser ''u1'' [''A''] [])
   \<and> \<lparr>productId = Some ''A'', timestamp = 1\<rparr>
        \<in> set (u_viewHistory (demoUser ''u1'' [''A''] []))
          \<union> set (u_purchases (demoUser ''u1'' [''A''] []))
   \<and> productId \<lparr>productId = Some ''A'', timestamp = 1\<rparr> = Some ''A''
   \<and> Some ''A'' \<notin> p_id ` set (getContentBasedRecommendations demoStore ''u1'' 5)
   \<and> Some ''A'' \<notin> p_id ` set (getCollaborativeRecommendations demoStore ''u1'' 5)
   \<and> getContentBasedRecommendations demoStore ''u1'' 5
        = [demoProduct ''C'' ''books'' 7, demoProduct ''B'' ''toys'' 3]
   \<and> getCollaborativeRecommendations demoStore ''u1'' 5
        = [demoProduct ''B'' ''toys'' 3, demoProduct ''C'' ''books'' 7]"
proof -
  have h1: "find (\<lambda>u. u_id u = ''u1'') (users demoStore) = Some (demoUser ''u1'' [''A''] [])"
    by (simp add: demoStore_def demoUser_def)
  have h2: "\<lparr>productId = Some ''A'', timestamp = 1\<rparr>
        \<in> set (u_viewHistory (demoUser ''u1'' [''A''] []))
          \<union> set (u_purchases (demoUser ''u1'' [''A''] []))"
    by (simp add: demoUser_def)
  have h3: "productId \<lparr>productId = Some ''A'', timestamp = 1\<rparr> = Some ''A''"
    by simp
  have e1: "getContentBasedRecommendations demoStore ''u1'' 5
        = [demoProduct ''C'' ''books'' 7, demoProduct ''B'' ''toys'' 3]"
    by (simp add: demo_defs)
  have e2: "getCollaborativeRecommendations demoStore ''u1'' 5
        = [demoProduct ''B'' ''toys'' 3, demoProduct ''C'' ''books'' 7]"
    by (simp add: demo_defs)
  show ?thesis
    using generators_exclude_history[OF h1 h2 h3, of 5] h1 h2 e1 e2 by simp
qed









lemma addUnseen_raises:
  "\<exists>p \<in> set ps. p_id p = None \<Longrightarrow> addUnseen ps s = Inl TypeError"
  by (induction ps s rule: addUnseen.induct) (auto split: option.splits)

lemma addTrending_raises:
  "\<exists>p \<in> set ps. p_id p = None \<Longrightarrow> addTrending limit ps s = Inl TypeError"
  by (induction limit ps s rule: addTrending.induct) (auto split: option.splits)

lemma combine_raises:
  assumes "\<exists>p \<in> set (collaborativeL @ contentBasedL @ trendingL). p_id p = None"
  shows "combine contentBasedL collaborativeL trendingL limit = emptyShape"
proof -
  consider "\<exists>p \<in> set collaborativeL. p_id p = None"
    | "\<exists>p \<in> set contentBasedL. p_id p = None"
    | "\<exists>p \<in> set trendingL. p_id p = None"
    using assms by auto
  then have "\<exists>e. mergePasses contentBasedL collaborativeL trendingL limit = Inl e"
  proof cases
    case 1
    then show ?thesis by (simp add: mergePasses_def addUnseen_raises)
  next
    case 2
    then show ?thesis by (simp add: mergePasses_def addUnseen_raises split: sum.splits)
  next
    case 3
    then show ?thesis by (simp add: mergePasses_def addTrending_raises split: sum.splits)
  qed
  then show ?thesis by (auto simp: combine_def)
qed

text \<open>
  Claim C8: a store error raised by a query inside one of the three generators is caught
  there and the generator returns the empty list; an error raised inside the blend (the
  \<^verbatim>\<open>TypeError\<close> of \<^verbatim>\<open>product._id.toString()\<close> on a product without \<^verbatim>\<open>_id\<close>) yields the
  shape with four empty lists. The generators and the blender return values of list and
  response type: no error leaves them.
\<close>

theorem errors_become_empty_results:
  "(failing st UserFindById \<longrightarrow>
      getCollaborativeRecommendations st userId n = [] \<and>
      getContentBasedRecommendations st userId n = [])
   \<and> (failing st UserFind \<longrightarrow> getCollaborativeRecommendations st userId n = [])
   \<and> (failing st ProductFind \<longrightarrow>
      getCollaborativeRecommendations st userId n = [] \<and>
      getContentBasedRecommendations st userId n = [] \<and>
      getTrendingProducts st n = [])
   \<and> ((\<exists>p \<in> set (collaborativeL @ contentBasedL @ trendingL). p_id p = None) \<longrightarrow>
      combine contentBasedL collaborativeL trendingL limit =
        \<lparr>recommendations = [], contentBased = Some [], collaborative = Some [],
         trending = []\<rparr>)"
  using generators_store_error[of st userId n]
    combine_raises[of collaborativeL contentBasedL trendingL limit]
  by (simp add: emptyShape_def)

theorem errors_become_empty_results_witness:
  "failing (demoStore\<lparr>failing := \<lambda>q. True\<rparr>) UserFindById
   \<and> failing (demoStore\<lparr>failing := \<lambda>q. True\<rparr>) UserFind
   \<and> failing (demoStore\<lparr>failing := \<lambda>q. True\<rparr>) ProductFind
   \<and> (\<exists>p \<in> set ([mkProduct ''P1''] @ [(mkProduct ''P2'')\<lparr>p_id := None\<rparr>] @ [mkProduct ''P3'']).
         p_id p = None)
   \<and> getCollaborativeRecommendations (demoStore\<lparr>failing := \<lambda>q. True\<rparr>) ''u1'' 5 = []
   \<and> getContentBasedRecommendations (demoStore\<lparr>failing := \<lambda>q. True\<rparr>) ''u1'' 5 = []
   \<and> getTrendingProducts (demoStore\<lparr>failing := \<lambda>q. True\<rparr>) 5 = []
   \<and> combine [(mkProduct ''P2'')\<lparr>p_id := None\<rparr>] [mkProduct ''P1''] [mkProduct ''P3''] 5 =
        \<lparr>recommendations = [], contentBased = Some [], collaborative = Some [],
         trending = []\<rparr>"
  using errors_become_empty_results
    [of "demoStore\<lparr>failing := \<lambda>q. True\<rparr>" "''u1''" 5 "[mkProduct ''P1'']"
        "[(mkProduct ''P2'')\<lparr>p_id := None\<rparr>]" "[mkProduct ''P3'']" 5]
  by simp

section \<open>Properties of the history mutators\<close>






end
